theory Spec2Isabelle
  imports Complex_Main "HOL-Library.Word"
begin

section \<open>Strings of the source language\<close>

text \<open>
  A TypeScript string is a sequence of UTF-16 code units; \<open>length\<close>, indexing and
  \<open>trim\<close> all work on code units. The model keeps that: a string is a list of
  16-bit words, and \<open>js\<close> embeds an ASCII literal.
\<close>

type_synonym code_unit = "16 word"
type_synonym jsstring = "code_unit list"

definition js :: "string \<Rightarrow> jsstring" where
  "js s = map of_char s"

definition chDot :: code_unit where "chDot = 0x2E"
definition chBang :: code_unit where "chBang = 0x21"
definition chQuestion :: code_unit where "chQuestion = 0x3F"
definition chNewline :: code_unit where "chNewline = 0x0A"
definition chSpace :: code_unit where "chSpace = 0x20"

text \<open>
  \<open>String.prototype.trim\<close> removes the code units of the ECMAScript productions
  WhiteSpace and LineTerminator from both ends.
\<close>

definition isWhiteSpace :: "code_unit \<Rightarrow> bool" where
  "isWhiteSpace c \<longleftrightarrow>
     c = 0x09 \<or> c = 0x0A \<or> c = 0x0B \<or> c = 0x0C \<or> c = 0x0D \<or> c = 0x20 \<or>
     c = 0xA0 \<or> c = 0x1680 \<or> (0x2000 \<le> c \<and> c \<le> 0x200A) \<or>
     c = 0x2028 \<or> c = 0x2029 \<or> c = 0x202F \<or> c = 0x205F \<or> c = 0x3000 \<or>
     c = 0xFEFF"

definition trim :: "jsstring \<Rightarrow> jsstring" where
  "trim s = rev (dropWhile isWhiteSpace (rev (dropWhile isWhiteSpace s)))"

section \<open>The segmenter: \<open>splitTextIntoChunks\<close> of \<open>src/utils/textUtils.ts\<close>\<close>

text \<open>
  The interface \<open>Chunk\<close> of \<open>src/types.ts\<close>. Its fields \<open>id\<close> and \<open>text\<close>
  are named \<open>chunk_id\<close> and \<open>chunk_text\<close> here.
\<close>

record Chunk =
  chunk_id :: int
  chunk_text :: jsstring

text \<open>
  The delimiter test of the scanning loop. \<open>prevChar\<close> and \<open>nextChar\<close> are
  \<open>null\<close> (here \<open>None\<close>) at the two ends of the text.
\<close>

definition isDelimiter :: "code_unit option \<Rightarrow> code_unit \<Rightarrow> code_unit option \<Rightarrow> bool" where
  "isDelimiter prevChar char nextChar =
     (if char = chBang \<or> char = chQuestion \<or> char = chNewline then True
      else if char = chDot then (nextChar \<noteq> Some chDot \<and> prevChar \<noteq> Some chDot)
      else False)"

text \<open>
  The first loop, \<open>for (let i = 0; i < text.length; i++)\<close>. The arguments are the
  character before position \<open>i\<close>, the text from position \<open>i\<close> on, the buffer and the
  sentences pushed so far; the result is the sentences and the buffer after the loop.
\<close>

fun scanSentences ::
  "code_unit option \<Rightarrow> jsstring \<Rightarrow> jsstring \<Rightarrow> jsstring list \<Rightarrow> jsstring list \<times> jsstring" where
  "scanSentences prevChar [] buffer sentences = (sentences, buffer)"
| "scanSentences prevChar (char # rest) buffer sentences =
     (let buffer' = buffer @ [char];
          nextChar = (case rest of [] \<Rightarrow> None | n # _ \<Rightarrow> Some n)
      in if isDelimiter prevChar char nextChar \<and> 3 \<le> length (trim buffer')
         then scanSentences (Some char) rest [] (sentences @ [trim buffer'])
         else scanSentences (Some char) rest buffer' sentences)"

text \<open>The handling of what is left in the buffer after the loop.\<close>

definition flushBuffer :: "jsstring \<Rightarrow> jsstring list \<Rightarrow> jsstring list" where
  "flushBuffer buffer sentences =
     (if 0 < length (trim buffer) then
        (if length (trim buffer) < 3 \<and> 0 < length sentences
         then butlast sentences @ [last sentences @ [chSpace] @ trim buffer]
         else sentences @ [trim buffer])
      else sentences)"

text \<open>The fallback: no sentence was formed but the text has content.\<close>

definition fallbackSentence :: "jsstring \<Rightarrow> jsstring list \<Rightarrow> jsstring list" where
  "fallbackSentence txt sentences =
     (if length sentences = 0 \<and> 0 < length (trim txt) then sentences @ [trim txt]
      else sentences)"

definition splitSentences :: "jsstring \<Rightarrow> jsstring list" where
  "splitSentences txt =
     (case scanSentences None txt [] [] of
        (sentences, buffer) \<Rightarrow> fallbackSentence txt (flushBuffer buffer sentences))"

text \<open>
  The grouping loop, \<open>for (const sentence of sentences)\<close>, over the loop variables
  \<open>chunks\<close>, \<open>currentChunkText\<close>, \<open>sentenceCount\<close> and \<open>chunkId\<close>.
\<close>

fun groupLoop ::
  "int \<Rightarrow> jsstring list \<Rightarrow> Chunk list \<Rightarrow> jsstring \<Rightarrow> int \<Rightarrow> int \<Rightarrow> Chunk list \<times> jsstring \<times> int" where
  "groupLoop sentencesPerChunk [] chunks currentChunkText sentenceCount chunkId =
     (chunks, currentChunkText, chunkId)"
| "groupLoop sentencesPerChunk (sentence # rest) chunks currentChunkText sentenceCount chunkId =
     (let currentChunkText' =
            currentChunkText @ (if 0 < length currentChunkText then [chSpace] else []) @ sentence;
          sentenceCount' = sentenceCount + 1
      in if sentencesPerChunk \<le> sentenceCount'
         then groupLoop sentencesPerChunk rest
                (chunks @ [\<lparr>chunk_id = chunkId, chunk_text = currentChunkText'\<rparr>]) [] 0 (chunkId + 1)
         else groupLoop sentencesPerChunk rest chunks currentChunkText' sentenceCount' chunkId)"

text \<open>
  After the loop: \<open>if (currentChunkText.length > 0) chunks.push(...)\<close>, applied to the
  final values of the loop variables.
\<close>

definition finishGroups :: "Chunk list \<times> jsstring \<times> int \<Rightarrow> Chunk list" where
  "finishGroups r =
     (case r of (chunks, currentChunkText, chunkId) \<Rightarrow>
        if 0 < length currentChunkText
        then chunks @ [\<lparr>chunk_id = chunkId, chunk_text = currentChunkText\<rparr>]
        else chunks)"

definition groupSentences :: "int \<Rightarrow> jsstring list \<Rightarrow> Chunk list" where
  "groupSentences sentencesPerChunk sentences =
     finishGroups (groupLoop sentencesPerChunk sentences [] [] 0 0)"

text \<open>
  The whole function. \<open>if (!text) return []\<close> is the test for the empty string. Every
  operation of the source (indexing inside the bounds of the loop, \<open>trim\<close>,
  \<open>push\<close>, concatenation) is defined on every input and both loops are bounded, so
  the model has no error result and is a total function.
\<close>

definition splitTextIntoChunks :: "jsstring \<Rightarrow> int \<Rightarrow> Chunk list" where
  "splitTextIntoChunks txt sentencesPerChunk =
     (if txt = [] then [] else groupSentences sentencesPerChunk (splitSentences txt))"

subsection \<open>The grouping rule in the words of the specification\<close>

text \<open>
  \<open>joinSpace\<close> joins sentences with single spaces. \<open>groupsOf n\<close> cuts a list into
  consecutive groups of \<open>n\<close> elements, the last group taking what remains. A text has
  \<open>noDelimiter\<close> when the delimiter test fails at every position.
\<close>

fun joinSpace :: "jsstring list \<Rightarrow> jsstring" where
  "joinSpace [] = []"
| "joinSpace [s] = s"
| "joinSpace (s # t # ss) = s @ [chSpace] @ joinSpace (t # ss)"

fun groupsOf :: "nat \<Rightarrow> 'a list \<Rightarrow> 'a list list" where
  "groupsOf n [] = []"
| "groupsOf n (x # xs) = (x # take (n - 1) xs) # groupsOf n (drop (n - 1) xs)"

fun noDelimiter :: "code_unit option \<Rightarrow> jsstring \<Rightarrow> bool" where
  "noDelimiter prevChar [] = True"
| "noDelimiter prevChar (char # rest) =
     (\<not> isDelimiter prevChar char (case rest of [] \<Rightarrow> None | n # _ \<Rightarrow> Some n)
      \<and> noDelimiter (Some char) rest)"



section \<open>The speech backend: \<open>src/services/webSpeechService.ts\<close>\<close>

datatype ReaderState = IDLE | LOADING | PLAYING | PAUSED

datatype ViewMode = Continuous | Paginated

text \<open>
  \<open>ReaderSettings\<close> of \<open>src/types.ts\<close>, with the field \<open>viewMode\<close> that the
  Reader and the application's default settings use. JavaScript numbers that carry
  fractions (rate, volume, progress) are modelled as exact rationals: rounding of
  double-precision arithmetic is outside the model.
\<close>

record ReaderSettings =
  playbackRate :: rat
  volume :: rat
  webSpeechVoiceURI :: jsstring
  sentencesPerChunk :: int
  viewMode :: ViewMode

text \<open>
  The three closures that \<open>playChunk\<close> hands to \<open>speakWebSpeech\<close>, one type per
  TypeScript function type. A closure is represented by what it captured: \<open>OnEnd\<close>
  holds the \<open>index\<close> argument of \<open>playChunk\<close> and the \<open>chunks\<close> and \<open>settings\<close>
  of the render that created that \<open>playChunk\<close>.
\<close>

datatype EndCallback = OnEnd int "Chunk list" ReaderSettings

datatype ErrorCallback = OnError

datatype ProgressCallback = OnProgress

text \<open>
  The model follows \<open>speakWebSpeech\<close> of \<open>src/services/webSpeechService.ts\<close>,
  the module the Reader imports. The variants in \<open>src/unnamed/part_001\<close> declare the
  same seven parameters and differ in cutting a text of 1000 characters or more into
  several utterances, with \<open>onEnd\<close> called after the last.

  A \<open>SpeechSynthesisUtterance\<close> as \<open>speakWebSpeech\<close> builds it. The voice object
  is looked up among the installed voices, which are outside the model; the requested
  URI stands for it.
\<close>

record Utterance =
  utt_text :: jsstring
  utt_voiceURI :: jsstring
  utt_rate :: rat
  utt_volume :: rat
  utt_onend :: EndCallback
  utt_onerror :: ErrorCallback

datatype SpeechCall = Cancel | Speak Utterance | Pause | Resume

section \<open>The Reader component\<close>

text \<open>
  The state of the Reader (\<open>src/unnamed/part_003\<close>; \<open>src/components/Reader.tsx\<close> is
  the same component without the progress simulation, the \<open>autoPlay\<close> flag and the
  page state): the \<open>useState\<close> variables and \<open>useRef\<close> cells that playback,
  persistence and pagination use, the queue of \<open>window.speechSynthesis\<close>, the calls
  made to it, and the calls made to \<open>onSaveProgress\<close>, oldest first.
  \<open>progressInterval\<close> is \<open>None\<close> when no timer runs and holds the \<open>step\<close> that
  the timer's callback captured otherwise.
\<close>

record Reader =
  content :: jsstring
  chunks :: "Chunk list"
  currentChunkIndex :: int
  readerState :: ReaderState
  settings :: ReaderSettings
  errorMsg :: "jsstring option"
  chunkProgress :: rat
  currentPage :: int
  isSettingUpdate :: bool
  progressInterval :: "rat option"
  webSpeechUtterance :: "Utterance option"
  queue :: "Utterance list"
  speechCalls :: "SpeechCall list"
  saved :: "(int \<times> ReaderSettings) list"

definition ITEMS_PER_PAGE :: int where
  "ITEMS_PER_PAGE = 50"

subsection \<open>Calls into the backend\<close>

definition stopWebSpeech :: "Reader \<Rightarrow> Reader" where
  "stopWebSpeech s = s\<lparr>queue := [], speechCalls := speechCalls s @ [Cancel]\<rparr>"

definition pauseWebSpeech :: "Reader \<Rightarrow> Reader" where
  "pauseWebSpeech s = s\<lparr>speechCalls := speechCalls s @ [Pause]\<rparr>"

definition resumeWebSpeech :: "Reader \<Rightarrow> Reader" where
  "resumeWebSpeech s = s\<lparr>speechCalls := speechCalls s @ [Resume]\<rparr>"

text \<open>
  \<open>speakWebSpeech\<close> declares seven parameters, the last being \<open>shouldCancel\<close>.
  JavaScript drops arguments beyond the declared ones; \<open>extra\<close> is the list of such
  surplus arguments of a call. The result of the function, the utterance, is what the
  Reader stores in \<open>webSpeechUtterance\<close>.
\<close>

definition speakWebSpeech ::
  "jsstring \<Rightarrow> jsstring \<Rightarrow> rat \<Rightarrow> rat \<Rightarrow> EndCallback \<Rightarrow> ErrorCallback \<Rightarrow> bool \<Rightarrow>
   ProgressCallback list \<Rightarrow> Reader \<Rightarrow> Reader" where
  "speakWebSpeech txt voiceURI rate vol onEnd onError shouldCancel extra s =
     (let s1 = (if shouldCancel
                then s\<lparr>queue := [], speechCalls := speechCalls s @ [Cancel]\<rparr> else s);
          utterance = \<lparr>utt_text = txt, utt_voiceURI = voiceURI, utt_rate = rate,
                       utt_volume = vol / 100, utt_onend = onEnd, utt_onerror = onError\<rparr>
      in s1\<lparr>queue := queue s1 @ [utterance],
             speechCalls := speechCalls s1 @ [Speak utterance],
             webSpeechUtterance := Some utterance\<rparr>)"

subsection \<open>Playback\<close>

definition clearProgressInterval :: "Reader \<Rightarrow> Reader" where
  "clearProgressInterval s = s\<lparr>progressInterval := None\<rparr>"

text \<open>
  The step of the progress simulation. The quotients are those of JavaScript when the
  text is non-empty and the rate is not zero (otherwise JavaScript yields an infinite
  or undefined number, which a rational does not represent); the segmenter produces
  no empty chunk text and the settings form bounds the rate to 0.5 .. 3.0.
\<close>

definition progressStep :: "jsstring \<Rightarrow> ReaderSettings \<Rightarrow> rat" where
  "progressStep txt st =
     (let textLength = of_nat (length txt);
          estimatedDurationMs = (textLength * 70) / playbackRate st;
          updateInterval = 100
      in (updateInterval / estimatedDurationMs) * 100)"

text \<open>
  \<open>playChunk(index, autoPlay)\<close> of the render with chunks \<open>cs\<close> and settings \<open>st\<close>.
  The eighth argument of its call of \<open>speakWebSpeech\<close> is the real-progress closure.
\<close>

definition playChunk :: "Chunk list \<Rightarrow> ReaderSettings \<Rightarrow> int \<Rightarrow> bool \<Rightarrow> Reader \<Rightarrow> Reader" where
  "playChunk cs st index autoPlay s =
     (if index < 0 \<or> int (length cs) \<le> index then s
      else
        let s1 = (if \<not> autoPlay then stopWebSpeech s else s);
            s2 = clearProgressInterval s1;
            s3 = s2\<lparr>errorMsg := None, readerState := PLAYING, chunkProgress := 0\<rparr>;
            step = progressStep (chunk_text (cs ! nat index)) st;
            s4 = s3\<lparr>progressInterval := Some step\<rparr>
        in speakWebSpeech (chunk_text (cs ! nat index)) (webSpeechVoiceURI st)
             (playbackRate st) (volume st) (OnEnd index cs st) OnError (\<not> autoPlay)
             [OnProgress] s4)"

text \<open>The callback of the timer, run every 100 ms while the timer is set.\<close>

definition tick :: "Reader \<Rightarrow> Reader" where
  "tick s =
     (case progressInterval s of
        None \<Rightarrow> s
      | Some step \<Rightarrow>
          s\<lparr>chunkProgress :=
               (if 95 \<le> chunkProgress s then chunkProgress s
                else min 95 (chunkProgress s + step))\<rparr>)"

text \<open>
  The completion closure. Its first two statements are \<open>completeChunk\<close>; then it
  either advances (the updater reads the latest index, calls
  \<open>playChunk(next, true)\<close> and returns \<open>next\<close>) or goes idle.
\<close>

definition completeChunk :: "Reader \<Rightarrow> Reader" where
  "completeChunk s = (clearProgressInterval s)\<lparr>chunkProgress := 100\<rparr>"

definition onEnd :: "EndCallback \<Rightarrow> Reader \<Rightarrow> Reader" where
  "onEnd cb s =
     (case cb of OnEnd index cs st \<Rightarrow>
        let s1 = completeChunk s in
        if index < int (length cs) - 1
        then (let next = currentChunkIndex s1 + 1
              in (playChunk cs st next True s1)\<lparr>currentChunkIndex := next\<rparr>)
        else s1\<lparr>readerState := IDLE\<rparr>)"

text \<open>
  The error closure; \<open>err\<close> is the \<open>error\<close> field of the event, empty when absent.
  The message starts with the source's Vietnamese prefix, given by its code units.
\<close>

definition errorPrefix :: jsstring where
  "errorPrefix = [0x4C, 0x1ED7, 0x69, 0x20, 0x74, 0x72, 0xEC, 0x6E, 0x68, 0x20,
                  0x64, 0x75, 0x79, 0x1EC7, 0x74, 0x3A, 0x20]"

definition onError :: "ErrorCallback \<Rightarrow> jsstring \<Rightarrow> Reader \<Rightarrow> Reader" where
  "onError cb err s =
     (let s1 = clearProgressInterval s;
          msg = (if err = [] then js ''Unknown Error'' else err)
      in s1\<lparr>errorMsg := Some (errorPrefix @ msg), readerState := IDLE\<rparr>)"

text \<open>The real-progress closure, \<open>(percentage) => setChunkProgress(percentage)\<close>.\<close>

definition onProgress :: "ProgressCallback \<Rightarrow> rat \<Rightarrow> Reader \<Rightarrow> Reader" where
  "onProgress cb percentage s = s\<lparr>chunkProgress := percentage\<rparr>"

text \<open>
  What the backend does with its queue: the utterance at the head ends, or fails with
  an error. These are the handlers \<open>utterance.onend\<close> and \<open>utterance.onerror\<close> that
  \<open>speakWebSpeech\<close> installs; they are the only closures an utterance holds.
\<close>

definition utteranceEnd :: "Reader \<Rightarrow> Reader" where
  "utteranceEnd s =
     (case queue s of
        [] \<Rightarrow> s
      | u # rest \<Rightarrow> onEnd (utt_onend u) (s\<lparr>queue := rest\<rparr>))"

definition utteranceError :: "jsstring \<Rightarrow> Reader \<Rightarrow> Reader" where
  "utteranceError err s =
     (if err = js ''canceled'' \<or> err = js ''interrupted'' then s
      else case queue s of
             [] \<Rightarrow> s
           | u # rest \<Rightarrow> onError (utt_onerror u) err (s\<lparr>queue := rest\<rparr>))"

subsection \<open>Event handlers\<close>

text \<open>
  A handler reads the state of the render it belongs to and queues updates; the model
  applies the updates in order to the state \<open>s\<close> of that render.
\<close>

definition handlePlayPause :: "Reader \<Rightarrow> Reader" where
  "handlePlayPause s =
     (if readerState s = PLAYING then (pauseWebSpeech s)\<lparr>readerState := PAUSED\<rparr>
      else if readerState s = PAUSED then (resumeWebSpeech s)\<lparr>readerState := PLAYING\<rparr>
      else playChunk (chunks s) (settings s) (currentChunkIndex s) False s)"

definition handleStop :: "Reader \<Rightarrow> Reader" where
  "handleStop s =
     (clearProgressInterval (stopWebSpeech s))\<lparr>readerState := IDLE, chunkProgress := 0\<rparr>"

definition handleNavigate :: "int \<Rightarrow> Reader \<Rightarrow> Reader" where
  "handleNavigate offset s =
     (let s1 = handleStop s;
          next = max 0 (min (int (length (chunks s)) - 1) (currentChunkIndex s + offset));
          s2 = s1\<lparr>currentChunkIndex := next\<rparr>
      in playChunk (chunks s) (settings s) next False s2)"

text \<open>\<open>target\<close> is the result of \<open>parseInt(jumpTarget)\<close>, \<open>None\<close> for \<open>NaN\<close>.\<close>

definition handleJump :: "int option \<Rightarrow> Reader \<Rightarrow> Reader" where
  "handleJump target s =
     (case target of
        None \<Rightarrow> s
      | Some t \<Rightarrow>
          if 0 < t \<and> t \<le> int (length (chunks s))
          then (let s1 = handleStop s;
                    s2 = s1\<lparr>currentChunkIndex := t - 1\<rparr>
                in playChunk (chunks s) (settings s) (t - 1) False s2)
          else s)"

text \<open>The click on a chunk of the list.\<close>

definition handleChunkClick :: "int \<Rightarrow> Reader \<Rightarrow> Reader" where
  "handleChunkClick i s =
     (let s1 = handleStop s;
          s2 = s1\<lparr>currentChunkIndex := i\<rparr>
      in playChunk (chunks s) (settings s) i False s2)"

definition changeChunkSize :: "int \<Rightarrow> Reader \<Rightarrow> Reader" where
  "changeChunkSize delta s =
     (let oldSize = sentencesPerChunk (settings s);
          newSize = max 1 (min 200 (oldSize + delta))
      in if newSize = oldSize then s
         else
           let currentSentenceIndex = currentChunkIndex s * oldSize;
               newIndex = currentSentenceIndex div newSize
           in s\<lparr>settings := (settings s)\<lparr>sentencesPerChunk := newSize\<rparr>,
                 currentChunkIndex := newIndex\<rparr>)"

text \<open>
  \<open>handleSaveSettings\<close> with the settings of the form. With a new size of 0 the
  source divides by zero and the index becomes infinite or undefined; the result
  \<open>None\<close> stands for that.
\<close>

definition handleSaveSettings :: "ReaderSettings \<Rightarrow> Reader \<Rightarrow> Reader option" where
  "handleSaveSettings tempSettings s =
     (if sentencesPerChunk tempSettings \<noteq> sentencesPerChunk (settings s)
      then
        (let oldSize = sentencesPerChunk (settings s);
             newSize = sentencesPerChunk tempSettings;
             currentSentenceIndex = currentChunkIndex s * oldSize
         in if newSize = 0 then None
            else Some (s\<lparr>currentChunkIndex := currentSentenceIndex div newSize,
                         settings := tempSettings\<rparr>))
      else Some (s\<lparr>settings := tempSettings\<rparr>))"

definition totalPages :: "Reader \<Rightarrow> int" where
  "totalPages s = - ((- int (length (chunks s))) div ITEMS_PER_PAGE)"

definition handlePageChange :: "int \<Rightarrow> Reader \<Rightarrow> Reader" where
  "handlePageChange newPage s =
     (if 0 \<le> newPage \<and> newPage < totalPages s then s\<lparr>currentPage := newPage\<rparr> else s)"

subsection \<open>Effects\<close>

text \<open>
  Each \<open>useEffect\<close> body takes the render \<open>r\<close> whose values it captured and the state
  \<open>s\<close> that the effects of this pass have produced so far; reference cells are read
  from \<open>s\<close>. The effects are listed in the order of the source.
\<close>

definition pageEffect :: "Reader \<Rightarrow> Reader \<Rightarrow> Reader" where
  "pageEffect r s = s\<lparr>currentPage := currentChunkIndex r div ITEMS_PER_PAGE\<rparr>"

definition initChunksEffect :: "Reader \<Rightarrow> Reader \<Rightarrow> Reader" where
  "initChunksEffect r s =
     (let generatedChunks = splitTextIntoChunks (content r) (sentencesPerChunk (settings r));
          s1 = s\<lparr>chunks := generatedChunks\<rparr>
      in if int (length generatedChunks) \<le> currentChunkIndex r
         then s1\<lparr>currentChunkIndex := max 0 (int (length generatedChunks) - 1)\<rparr>
         else s1)"

definition settingsEffect :: "Reader \<Rightarrow> Reader \<Rightarrow> Reader" where
  "settingsEffect r s =
     (let s1 = (if readerState r = PLAYING
                then playChunk (chunks r) (settings r) (currentChunkIndex r) False
                       (s\<lparr>isSettingUpdate := True\<rparr>)
                else s)
      in s1\<lparr>saved := saved s1 @ [(currentChunkIndex r, settings r)]\<rparr>)"

definition indexEffect :: "Reader \<Rightarrow> Reader \<Rightarrow> Reader" where
  "indexEffect r s =
     (let s1 = (if \<not> isSettingUpdate s
                then s\<lparr>saved := saved s @ [(currentChunkIndex r, settings r)]\<rparr>
                else s)
      in s1\<lparr>isSettingUpdate := False\<rparr>)"

text \<open>
  One pass of effects after the render \<open>r\<close>: an effect runs when one of its
  dependencies differs from the previous render \<open>prev\<close>.
\<close>

definition runEffects :: "Reader \<Rightarrow> Reader \<Rightarrow> Reader" where
  "runEffects prev r =
     (let indexChanged = (currentChunkIndex r \<noteq> currentChunkIndex prev);
          s1 = (if indexChanged then pageEffect r r else r);
          s2 = (if content r \<noteq> content prev
                  \<or> sentencesPerChunk (settings r) \<noteq> sentencesPerChunk (settings prev)
                then initChunksEffect r s1 else s1);
          s3 = (if playbackRate (settings r) \<noteq> playbackRate (settings prev)
                  \<or> volume (settings r) \<noteq> volume (settings prev)
                  \<or> webSpeechVoiceURI (settings r) \<noteq> webSpeechVoiceURI (settings prev)
                then settingsEffect r s2 else s2)
      in if indexChanged then indexEffect r s3 else s3)"

text \<open>
  An effect that sets state causes another render and another pass. The first pass can
  change, of all dependencies, only the index (in \<open>initChunksEffect\<close>), and the second
  pass changes none, so two passes reach the state in which no effect is pending.
\<close>

definition commit :: "Reader \<Rightarrow> Reader \<Rightarrow> Reader" where
  "commit prev r = runEffects r (runEffects prev r)"

subsection \<open>Events\<close>

datatype Event =
    PlayPause
  | Stop
  | Navigate int
  | Jump "int option"
  | ChunkClick int
  | ChangeChunkSize int
  | SaveSettings ReaderSettings
  | PageChange int
  | Tick
  | UtteranceEnd
  | UtteranceError jsstring

fun handleEvent :: "Event \<Rightarrow> Reader \<Rightarrow> Reader option" where
  "handleEvent PlayPause s = Some (handlePlayPause s)"
| "handleEvent Stop s = Some (handleStop s)"
| "handleEvent (Navigate offset) s = Some (handleNavigate offset s)"
| "handleEvent (Jump target) s = Some (handleJump target s)"
| "handleEvent (ChunkClick i) s = Some (handleChunkClick i s)"
| "handleEvent (ChangeChunkSize delta) s = Some (changeChunkSize delta s)"
| "handleEvent (SaveSettings tempSettings) s = handleSaveSettings tempSettings s"
| "handleEvent (PageChange newPage) s = Some (handlePageChange newPage s)"
| "handleEvent Tick s = Some (tick s)"
| "handleEvent UtteranceEnd s = Some (utteranceEnd s)"
| "handleEvent (UtteranceError err) s = Some (utteranceError err s)"

text \<open>An event: its handler, then the render and the effects.\<close>

definition dispatch :: "Event \<Rightarrow> Reader \<Rightarrow> Reader option" where
  "dispatch ev s = map_option (commit s) (handleEvent ev s)"

subsection \<open>Mounting, and runs of events\<close>

text \<open>
  The first render has the initial values of the \<open>useState\<close> and \<open>useRef\<close> calls;
  on mounting every effect runs once, and the effects of the render they cause follow.
\<close>

definition initialReader :: "jsstring \<Rightarrow> ReaderSettings \<Rightarrow> int \<Rightarrow> Reader" where
  "initialReader fileContent initialSettings initialChunkIndex =
     \<lparr>content = fileContent, chunks = [], currentChunkIndex = initialChunkIndex,
      readerState = IDLE, settings = initialSettings, errorMsg = None, chunkProgress = 0,
      currentPage = initialChunkIndex div ITEMS_PER_PAGE, isSettingUpdate = False,
      progressInterval = None, webSpeechUtterance = None, queue = [], speechCalls = [],
      saved = []\<rparr>"

definition mountEffects :: "Reader \<Rightarrow> Reader" where
  "mountEffects r = indexEffect r (settingsEffect r (initChunksEffect r (pageEffect r r)))"

definition mount :: "jsstring \<Rightarrow> ReaderSettings \<Rightarrow> int \<Rightarrow> Reader" where
  "mount fileContent initialSettings initialChunkIndex =
     (let r = initialReader fileContent initialSettings initialChunkIndex
      in runEffects r (mountEffects r))"

fun runEvents :: "Event list \<Rightarrow> Reader \<Rightarrow> Reader option" where
  "runEvents [] s = Some s"
| "runEvents (ev # evs) s =
     (case dispatch ev s of None \<Rightarrow> None | Some s' \<Rightarrow> runEvents evs s')"

text \<open>
  The events of playback: those whose handlers change neither the settings nor the
  page by themselves.
\<close>

fun isPlaybackEvent :: "Event \<Rightarrow> bool" where
  "isPlaybackEvent (ChangeChunkSize delta) = False"
| "isPlaybackEvent (SaveSettings tempSettings) = False"
| "isPlaybackEvent (PageChange newPage) = False"
| "isPlaybackEvent ev = True"

subsection \<open>Readers used as concrete inputs\<close>

text \<open>
  \<open>DEFAULT_SETTINGS\<close> of the application (\<open>src/unnamed/part_000\<close>); a reader of the
  four-sentence text of the scenario, one sentence per chunk; a reader of an empty
  file; and a reader in paginated mode that plays chunk 49 of 60, the last chunk of
  the first page.
\<close>

definition DEFAULT_SETTINGS :: ReaderSettings where
  "DEFAULT_SETTINGS =
     \<lparr>playbackRate = 1, volume = 100, webSpeechVoiceURI = [], sentencesPerChunk = 50,
      viewMode = Continuous\<rparr>"

definition demoReader :: Reader where
  "demoReader =
     mount (js ''Hi. OK. Go now! Next.'' @ [chNewline])
       (DEFAULT_SETTINGS\<lparr>sentencesPerChunk := 1\<rparr>) 0"

definition emptyReader :: Reader where
  "emptyReader = mount [] DEFAULT_SETTINGS 0"

definition sixtyChunks :: "Chunk list" where
  "sixtyChunks = map (\<lambda>i. \<lparr>chunk_id = int i, chunk_text = js ''Hi.''\<rparr>) [0..<60]"

definition pagedSettings :: ReaderSettings where
  "pagedSettings = DEFAULT_SETTINGS\<lparr>sentencesPerChunk := 1, viewMode := Paginated\<rparr>"

definition pagedReader :: Reader where
  "pagedReader =
     \<lparr>content = concat (replicate 60 (js ''Hi. '')), chunks = sixtyChunks,
      currentChunkIndex = 49, readerState = PLAYING, settings = pagedSettings,
      errorMsg = None, chunkProgress = 0, currentPage = 0, isSettingUpdate = False,
      progressInterval = Some (progressStep (js ''Hi.'') pagedSettings),
      webSpeechUtterance = None,
      queue = [\<lparr>utt_text = js ''Hi.'', utt_voiceURI = [], utt_rate = 1, utt_volume = 1,
                utt_onend = OnEnd 49 sixtyChunks pagedSettings, utt_onerror = OnError\<rparr>],
      speechCalls = [], saved = []\<rparr>"

text \<open>
  The same sixty chunks under a stored group size of \<open>- 2\<close> (a size below 1 gives one
  sentence per chunk), at rest on the last chunk, with the first page displayed after a
  page command.
\<close>

definition remapReader :: Reader where
  "remapReader =
     pagedReader\<lparr>currentChunkIndex := 59, readerState := IDLE,
       settings := pagedSettings\<lparr>sentencesPerChunk := - 2\<rparr>,
       progressInterval := None, queue := []\<rparr>"

section \<open>Properties of the segmenter\<close>

lemma js_simps: "js [] = []" "js (c # cs) = of_char c # js cs"
  by (simp_all add: js_def)

lemmas ch_defs = chDot_def chBang_def chQuestion_def chNewline_def chSpace_def

lemma scanSentences_nonempty:
  "\<forall>s\<in>set acc. s \<noteq> [] \<Longrightarrow> \<forall>s\<in>set (fst (scanSentences p t b acc)). s \<noteq> []"
proof (induction t arbitrary: p b acc)
  case Nil
  then show ?case by simp
next
  case (Cons c t)
  show ?case
  proof (cases "isDelimiter p c (case t of [] \<Rightarrow> None | n # _ \<Rightarrow> Some n) \<and> 3 \<le> length (trim (b @ [c]))")
    case True
    then have "trim (b @ [c]) \<noteq> []" by auto
    with Cons.prems have "\<forall>s\<in>set (acc @ [trim (b @ [c])]). s \<noteq> []" by simp
    from Cons.IH[OF this] True show ?thesis by (simp add: Let_def)
  next
    case False
    then show ?thesis using Cons.IH[OF Cons.prems] by (auto simp add: Let_def)
  qed
qed

lemma flushBuffer_nonempty:
  "\<forall>s\<in>set acc. s \<noteq> [] \<Longrightarrow> \<forall>s\<in>set (flushBuffer b acc). s \<noteq> []"
  by (auto simp: flushBuffer_def dest: in_set_butlastD)

lemma fallbackSentence_nonempty:
  "\<forall>s\<in>set acc. s \<noteq> [] \<Longrightarrow> \<forall>s\<in>set (fallbackSentence t acc). s \<noteq> []"
  by (auto simp: fallbackSentence_def)

lemma splitSentences_nonempty: "\<forall>s\<in>set (splitSentences txt). s \<noteq> []"
proof -
  obtain ss b where sb: "scanSentences None txt [] [] = (ss, b)" by (cases "scanSentences None txt [] []")
  have "\<forall>s\<in>set (fst (scanSentences None txt [] [])). s \<noteq> []"
    by (rule scanSentences_nonempty) simp
  with sb have "\<forall>s\<in>set ss. s \<noteq> []" by simp
  then have "\<forall>s\<in>set (fallbackSentence txt (flushBuffer b ss)). s \<noteq> []"
    by (intro fallbackSentence_nonempty flushBuffer_nonempty)
  with sb show ?thesis by (simp add: splitSentences_def)
qed

lemma joinSpace_snoc:
  "joinSpace (cur @ [s]) = joinSpace cur @ (if cur = [] then [] else [chSpace]) @ s"
  by (induction cur rule: joinSpace.induct) auto

lemma joinSpace_empty_iff:
  "\<forall>s\<in>set cur. s \<noteq> [] \<Longrightarrow> joinSpace cur = [] \<longleftrightarrow> cur = []"
  by (induction cur rule: joinSpace.induct) auto

lemma groupsOf_short: "xs \<noteq> [] \<Longrightarrow> length xs \<le> n \<Longrightarrow> groupsOf n xs = [xs]"
  by (cases xs) auto

lemma groupsOf_full:
  "xs \<noteq> [] \<Longrightarrow> length xs = n \<Longrightarrow> groupsOf n (xs @ ys) = xs # groupsOf n ys"
  by (cases xs) auto

lemma groupLoop_texts:
  assumes "1 \<le> g" "int (length cur) < g" "\<forall>s\<in>set cur. s \<noteq> []" "\<forall>s\<in>set ss. s \<noteq> []"
  shows "map chunk_text (finishGroups (groupLoop g ss acc (joinSpace cur) (int (length cur)) cid))
         = map chunk_text acc @ map joinSpace (groupsOf (nat g) (cur @ ss))"
  using assms
proof (induction ss arbitrary: acc cur cid)
  case Nil
  then show ?case
    by (cases "cur = []") (simp_all add: finishGroups_def joinSpace_empty_iff groupsOf_short)
next
  case (Cons s ss)
  have jtxt: "joinSpace cur @ (if 0 < length (joinSpace cur) then [chSpace] else []) @ s = joinSpace (cur @ [s])"
    using Cons.prems(3) by (simp add: joinSpace_snoc joinSpace_empty_iff)
  show ?case
  proof (cases "g \<le> int (length cur) + 1")
    case True
    with Cons.prems have len: "length (cur @ [s]) = nat g" by simp
    have step: "groupLoop g (s # ss) acc (joinSpace cur) (int (length cur)) cid
        = groupLoop g ss (acc @ [\<lparr>chunk_id = cid, chunk_text = joinSpace (cur @ [s])\<rparr>])
            (joinSpace []) (int (length ([]::jsstring list))) (cid + 1)"
      using True jtxt by (simp add: Let_def)
    have "map chunk_text (finishGroups (groupLoop g ss
            (acc @ [\<lparr>chunk_id = cid, chunk_text = joinSpace (cur @ [s])\<rparr>])
            (joinSpace []) (int (length ([]::jsstring list))) (cid + 1)))
          = map chunk_text (acc @ [\<lparr>chunk_id = cid, chunk_text = joinSpace (cur @ [s])\<rparr>])
            @ map joinSpace (groupsOf (nat g) ([] @ ss))"
      using Cons.prems by (intro Cons.IH) simp_all
    moreover have "groupsOf (nat g) (cur @ s # ss) = (cur @ [s]) # groupsOf (nat g) ss"
      using groupsOf_full[of "cur @ [s]" "nat g" ss] len by simp
    ultimately show ?thesis unfolding step by simp
  next
    case False
    have step: "groupLoop g (s # ss) acc (joinSpace cur) (int (length cur)) cid
        = groupLoop g ss acc (joinSpace (cur @ [s])) (int (length (cur @ [s]))) cid"
      using False jtxt by (simp add: Let_def add.commute)
    have "map chunk_text (finishGroups (groupLoop g ss acc (joinSpace (cur @ [s])) (int (length (cur @ [s]))) cid))
          = map chunk_text acc @ map joinSpace (groupsOf (nat g) ((cur @ [s]) @ ss))"
      using Cons.prems False by (intro Cons.IH) simp_all
    then show ?thesis unfolding step by simp
  qed
qed

lemma groupSentences_texts:
  assumes "1 \<le> g" "\<forall>s\<in>set ss. s \<noteq> []"
  shows "map chunk_text (groupSentences g ss) = map joinSpace (groupsOf (nat g) ss)"
  using groupLoop_texts[of g "[]" ss "[]" 0] assms by (simp add: groupSentences_def)

lemma concat_groupsOf: "concat (groupsOf n xs) = xs"
  by (induction n xs rule: groupsOf.induct) simp_all

lemma groupsOf_butlast_length:
  "1 \<le> n \<Longrightarrow> \<forall>grp\<in>set (butlast (groupsOf n xs)). length grp = n"
proof (induction n xs rule: groupsOf.induct)
  case (1 n)
  then show ?case by simp
next
  case (2 n x xs)
  show ?case
  proof (cases "groupsOf n (drop (n - 1) xs) = []")
    case True
    then show ?thesis by simp
  next
    case False
    then have "drop (n - 1) xs \<noteq> []" by auto
    then have "n - 1 < length xs" by simp
    then have "length (x # take (n - 1) xs) = n" using 2(2) by simp
    with 2 False show ?thesis by simp
  qed
qed

lemma groupsOf_last_length:
  "1 \<le> n \<Longrightarrow> xs \<noteq> [] \<Longrightarrow> 1 \<le> length (last (groupsOf n xs)) \<and> length (last (groupsOf n xs)) \<le> n"
proof (induction n xs rule: groupsOf.induct)
  case (1 n)
  then show ?case by simp
next
  case (2 n x xs)
  show ?case
  proof (cases "drop (n - 1) xs = []")
    case True
    then show ?thesis using 2(2) by simp
  next
    case False
    then have "groupsOf n (drop (n - 1) xs) \<noteq> []" by (cases "drop (n - 1) xs") auto
    with 2 False show ?thesis by simp
  qed
qed

lemma groupLoop_ids:
  assumes "map chunk_id acc = map int [0..<length acc]" "cid = int (length acc)"
  shows "map chunk_id (finishGroups (groupLoop g ss acc cur cnt cid))
         = map int [0..<length (finishGroups (groupLoop g ss acc cur cnt cid))]"
  using assms
proof (induction ss arbitrary: acc cur cnt cid)
  case Nil
  then show ?case by (simp add: finishGroups_def)
next
  case (Cons s ss)
  let ?t = "cur @ (if 0 < length cur then [chSpace] else []) @ s"
  let ?acc' = "acc @ [\<lparr>chunk_id = cid, chunk_text = ?t\<rparr>]"
  have "map chunk_id ?acc' = map int [0..<length ?acc']"
    using Cons.prems by simp
  moreover have "cid + 1 = int (length ?acc')"
    using Cons.prems by simp
  ultimately have "map chunk_id (finishGroups (groupLoop g ss ?acc' [] 0 (cid + 1)))
      = map int [0..<length (finishGroups (groupLoop g ss ?acc' [] 0 (cid + 1)))]"
    by (rule Cons.IH)
  moreover have "map chunk_id (finishGroups (groupLoop g ss acc ?t (cnt + 1) cid))
      = map int [0..<length (finishGroups (groupLoop g ss acc ?t (cnt + 1) cid))]"
    using Cons.prems by (rule Cons.IH)
  ultimately show ?case by (simp add: Let_def)
qed

lemma groupLoop_nonempty:
  assumes "\<forall>c\<in>set acc. chunk_text c \<noteq> []" "\<forall>s\<in>set ss. s \<noteq> []"
  shows "\<forall>c\<in>set (finishGroups (groupLoop g ss acc cur cnt cid)). chunk_text c \<noteq> []"
  using assms
proof (induction ss arbitrary: acc cur cnt cid)
  case Nil
  then show ?case by (auto simp: finishGroups_def)
next
  case (Cons s ss)
  let ?t = "cur @ (if 0 < length cur then [chSpace] else []) @ s"
  let ?acc' = "acc @ [\<lparr>chunk_id = cid, chunk_text = ?t\<rparr>]"
  from Cons.prems have s: "s \<noteq> []" and ss: "\<forall>s\<in>set ss. s \<noteq> []" by simp_all
  have "\<forall>c\<in>set ?acc'. chunk_text c \<noteq> []"
    using Cons.prems(1) s by simp
  then have "\<forall>c\<in>set (finishGroups (groupLoop g ss ?acc' [] 0 (cid + 1))). chunk_text c \<noteq> []"
    using ss by (rule Cons.IH)
  moreover have "\<forall>c\<in>set (finishGroups (groupLoop g ss acc ?t (cnt + 1) cid)). chunk_text c \<noteq> []"
    using Cons.prems(1) ss by (rule Cons.IH)
  ultimately show ?case by (simp add: Let_def)
qed


lemma groupSentences_ids:
  "map chunk_id (groupSentences g ss) = map int [0..<length (groupSentences g ss)]"
  unfolding groupSentences_def by (rule groupLoop_ids) simp_all

lemma groupSentences_nonempty:
  "\<forall>s\<in>set ss. s \<noteq> [] \<Longrightarrow> \<forall>c\<in>set (groupSentences g ss). chunk_text c \<noteq> []"
  unfolding groupSentences_def by (rule groupLoop_nonempty) simp_all

lemma splitSentences_Nil: "splitSentences [] = []"
  by (simp add: splitSentences_def flushBuffer_def fallbackSentence_def trim_def)

lemma scanSentences_noDelimiter:
  "noDelimiter p t \<Longrightarrow> scanSentences p t b acc = (acc, b @ t)"
  by (induction t arbitrary: p b) (simp_all add: Let_def)

lemma splitSentences_noDelimiter:
  "noDelimiter None t \<Longrightarrow> splitSentences t = (if trim t = [] then [] else [trim t])"
  by (simp add: splitSentences_def scanSentences_noDelimiter flushBuffer_def fallbackSentence_def)

lemma groupSentences_single:
  "s \<noteq> [] \<Longrightarrow> groupSentences g [s] = [\<lparr>chunk_id = 0, chunk_text = s\<rparr>]"
  by (simp add: groupSentences_def finishGroups_def Let_def)

lemmas segmenter_defs = splitTextIntoChunks_def groupSentences_def finishGroups_def
  splitSentences_def js_simps
  ch_defs isDelimiter_def trim_def isWhiteSpace_def flushBuffer_def fallbackSentence_def Let_def

subsection \<open>Concrete runs\<close>

lemma scenario_chunks:
  "splitTextIntoChunks (js ''Hi. OK. Go now! Next.'' @ [chNewline]) 2 =
     [\<lparr>chunk_id = 0, chunk_text = js ''Hi. OK.''\<rparr>,
      \<lparr>chunk_id = 1, chunk_text = js ''Go now! Next.''\<rparr>]"
  by (simp add: segmenter_defs)

lemma five_sentences:
  "splitSentences (js ''One. Two. Three. Four. Five.'') =
     [js ''One.'', js ''Two.'', js ''Three.'', js ''Four.'', js ''Five.'']"
  by (simp add: segmenter_defs)

lemma padded_text_chunks:
  "noDelimiter None (js '' abc d '')"
  "trim (js '' abc d '') = js ''abc d''"
  by (simp_all add: segmenter_defs)

subsection \<open>Claims about the segmenter\<close>

text \<open>
  Claim C1. On the text \<open>"Hi. OK. Go now! Next.\n"\<close> with group size 2 the segmenter
  returns the two chunks \<open>{id: 0, text: "Hi. OK."}\<close> and
  \<open>{id: 1, text: "Go now! Next."}\<close>. In general, for a group size of at least 1, the
  chunk texts are the space-joined groups of consecutive sentences: the groups
  concatenate to the sentence list, every group but the last has exactly
  \<open>groupSize\<close> sentences, and the last has between 1 and \<open>groupSize\<close>.
\<close>

theorem segmenter_grouping:
  "splitTextIntoChunks (js ''Hi. OK. Go now! Next.'' @ [chNewline]) 2 =
     [\<lparr>chunk_id = 0, chunk_text = js ''Hi. OK.''\<rparr>,
      \<lparr>chunk_id = 1, chunk_text = js ''Go now! Next.''\<rparr>]
   \<and> (1 \<le> g \<longrightarrow>
        map chunk_text (splitTextIntoChunks t g) = map joinSpace (groupsOf (nat g) (splitSentences t))
      \<and> concat (groupsOf (nat g) (splitSentences t)) = splitSentences t
      \<and> (\<forall>grp\<in>set (butlast (groupsOf (nat g) (splitSentences t))). int (length grp) = g)
      \<and> (splitSentences t \<noteq> [] \<longrightarrow>
           1 \<le> length (last (groupsOf (nat g) (splitSentences t)))
         \<and> int (length (last (groupsOf (nat g) (splitSentences t)))) \<le> g))"
proof (intro conjI impI)
  show "splitTextIntoChunks (js ''Hi. OK. Go now! Next.'' @ [chNewline]) 2 =
     [\<lparr>chunk_id = 0, chunk_text = js ''Hi. OK.''\<rparr>,
      \<lparr>chunk_id = 1, chunk_text = js ''Go now! Next.''\<rparr>]"
    by (rule scenario_chunks)
next
  assume g: "1 \<le> g"
  show "map chunk_text (splitTextIntoChunks t g) = map joinSpace (groupsOf (nat g) (splitSentences t))"
  proof (cases "t = []")
    case True
    then show ?thesis by (simp add: splitTextIntoChunks_def splitSentences_Nil)
  next
    case False
    then show ?thesis
      using groupSentences_texts[OF g splitSentences_nonempty, of t]
      by (simp add: splitTextIntoChunks_def)
  qed
next
  show "concat (groupsOf (nat g) (splitSentences t)) = splitSentences t"
    by (rule concat_groupsOf)
next
  assume g: "1 \<le> g"
  then have "1 \<le> nat g" by simp
  from groupsOf_butlast_length[OF this, of "splitSentences t"] g
  show "\<forall>grp\<in>set (butlast (groupsOf (nat g) (splitSentences t))). int (length grp) = g"
    by simp
next
  assume g: "1 \<le> g" and ne: "splitSentences t \<noteq> []"
  from g have n: "1 \<le> nat g" by simp
  from groupsOf_last_length[OF n ne]
  show "1 \<le> length (last (groupsOf (nat g) (splitSentences t)))" by simp
next
  assume g: "1 \<le> g" and ne: "splitSentences t \<noteq> []"
  from g have n: "1 \<le> nat g" by simp
  from groupsOf_last_length[OF n ne] g
  show "int (length (last (groupsOf (nat g) (splitSentences t)))) \<le> g" by linarith
qed

text \<open>
  The general part at five sentences and group size 2: three chunks holding 2, 2 and 1
  sentences.
\<close>

theorem segmenter_grouping_witness:
  "(1::int) \<le> 2
   \<and> splitSentences (js ''One. Two. Three. Four. Five.'') \<noteq> []
   \<and> map chunk_text (splitTextIntoChunks (js ''One. Two. Three. Four. Five.'') 2)
       = [js ''One. Two.'', js ''Three. Four.'', js ''Five.'']"
  using segmenter_grouping [where g = 2 and t = "js ''One. Two. Three. Four. Five.''"]
  unfolding five_sentences
  by (simp add: js_simps ch_defs)

text \<open>
  Claim C2. For every text and every group size (in particular every group size of at
  least 1) the ids of the returned chunks are \<open>0, 1, ..., N - 1\<close> in this order, and
  every chunk has a non-empty text.
\<close>

theorem segmenter_ids_contiguous:
  "map chunk_id (splitTextIntoChunks t g) = map int [0..<length (splitTextIntoChunks t g)]
   \<and> (\<forall>c\<in>set (splitTextIntoChunks t g). chunk_text c \<noteq> [])"
proof (cases "t = []")
  case True
  then show ?thesis by (simp add: splitTextIntoChunks_def)
next
  case False
  then show ?thesis
    using groupSentences_ids[of g "splitSentences t"]
      groupSentences_nonempty[OF splitSentences_nonempty, where txt1 = t and g = g]
    by (simp add: splitTextIntoChunks_def)
qed

theorem segmenter_ids_contiguous_witness:
  "map chunk_id (splitTextIntoChunks (js ''Hi. OK. Go now! Next.'' @ [chNewline]) 2) = [0, 1]
   \<and> [] \<notin> chunk_text ` set (splitTextIntoChunks (js ''Hi. OK. Go now! Next.'' @ [chNewline]) 2)"
  using segmenter_ids_contiguous [where g = 2 and t = "js ''Hi. OK. Go now! Next.'' @ [chNewline]"]
  unfolding scenario_chunks
  by (auto simp add: upt_conv_Cons)

text \<open>
  Claim C3, as stated, fails: the text \<open>" "\<close> is non-empty and has no delimiter, and
  the segmenter returns no chunk for it; the text \<open>" abc"\<close> has no delimiter, and the
  text of its chunk is \<open>"abc"\<close>, not the whole text.
\<close>

theorem segmenter_no_delimiter_counterexample:
  "js '' '' \<noteq> [] \<and> noDelimiter None (js '' '')
   \<and> splitTextIntoChunks (js '' '') 1 = []
   \<and> js '' abc'' \<noteq> [] \<and> noDelimiter None (js '' abc'')
   \<and> map chunk_text (splitTextIntoChunks (js '' abc'') 1) \<noteq> [js '' abc'']"
  by (simp add: segmenter_defs)

text \<open>
  Claim C3, amended. The segmenter is a total function (its model is one, see
  \<open>splitTextIntoChunks\<close>), the empty string yields the empty sequence, and a text
  without any delimiter yields exactly one chunk, with id 0 and the trimmed text,
  when its trimmed form is non-empty, and no chunk when it consists of white space only.
\<close>

theorem segmenter_no_delimiter:
  "splitTextIntoChunks [] g = []
   \<and> (noDelimiter None t \<longrightarrow>
        splitTextIntoChunks t g =
          (if trim t = [] then [] else [\<lparr>chunk_id = 0, chunk_text = trim t\<rparr>]))"
proof (intro conjI impI)
  show "splitTextIntoChunks [] g = []" by (simp add: splitTextIntoChunks_def)
next
  assume nd: "noDelimiter None t"
  show "splitTextIntoChunks t g =
          (if trim t = [] then [] else [\<lparr>chunk_id = 0, chunk_text = trim t\<rparr>])"
  proof (cases "trim t = []")
    case True
    then show ?thesis
      by (simp add: splitTextIntoChunks_def splitSentences_noDelimiter[OF nd] groupSentences_def
          finishGroups_def)
  next
    case False
    then have "t \<noteq> []" by (auto simp: trim_def)
    with False show ?thesis
      by (simp add: splitTextIntoChunks_def splitSentences_noDelimiter[OF nd] groupSentences_single)
  qed
qed

theorem segmenter_no_delimiter_witness:
  "noDelimiter None (js '' abc d '')
   \<and> splitTextIntoChunks (js '' abc d '') 3 = [\<lparr>chunk_id = 0, chunk_text = js ''abc d''\<rparr>]"
proof -
  have nd: "noDelimiter None (js '' abc d '')"
    by (rule padded_text_chunks(1))
  have "splitTextIntoChunks (js '' abc d '') 3 =
      (if trim (js '' abc d '') = [] then []
       else [\<lparr>chunk_id = 0, chunk_text = trim (js '' abc d '')\<rparr>])"
    using segmenter_no_delimiter [where g = 3 and t = "js '' abc d ''"] nd by blast
  also have "\<dots> = [\<lparr>chunk_id = 0, chunk_text = js ''abc d''\<rparr>]"
    unfolding padded_text_chunks(2) by (simp add: js_simps)
  finally show ?thesis using nd by blast
qed

text \<open>
  Claim C4. A dot whose predecessor or successor is a dot is not a delimiter, and the
  text \<open>"Wait... really?"\<close> with group size 1 yields the single chunk
  \<open>{id: 0, text: "Wait... really?"}\<close>.
\<close>

theorem ellipsis_preserved:
  "isDelimiter (Some chDot) chDot nextChar = False
   \<and> isDelimiter prevChar chDot (Some chDot) = False
   \<and> splitTextIntoChunks (js ''Wait... really?'') 1 =
       [\<lparr>chunk_id = 0, chunk_text = js ''Wait... really?''\<rparr>]"
  by (simp add: segmenter_defs)

theorem ellipsis_preserved_witness:
  "\<not> isDelimiter (Some chDot) chDot (Some chSpace)
   \<and> \<not> isDelimiter (Some (of_char CHR ''t'')) chDot (Some chDot)
   \<and> length (splitTextIntoChunks (js ''Wait... really?'') 1) = 1"
  using ellipsis_preserved [where nextChar = "Some chSpace" and prevChar = "Some (of_char CHR ''t'')"]
  by simp

section \<open>Properties of the Reader\<close>

lemmas backend_defs = stopWebSpeech_def pauseWebSpeech_def resumeWebSpeech_def speakWebSpeech_def
  clearProgressInterval_def

lemma playChunk_frame:
  "currentChunkIndex (playChunk cs st i a s) = currentChunkIndex s"
  "currentPage (playChunk cs st i a s) = currentPage s"
  "saved (playChunk cs st i a s) = saved s"
  "isSettingUpdate (playChunk cs st i a s) = isSettingUpdate s"
  "chunks (playChunk cs st i a s) = chunks s"
  "settings (playChunk cs st i a s) = settings s"
  "content (playChunk cs st i a s) = content s"
  by (simp_all add: playChunk_def backend_defs Let_def)

lemma playChunk_state:
  "readerState (playChunk cs st i a s) =
     (if i < 0 \<or> int (length cs) \<le> i then readerState s else PLAYING)"
  "chunkProgress (playChunk cs st i a s) =
     (if i < 0 \<or> int (length cs) \<le> i then chunkProgress s else 0)"
  "progressInterval (playChunk cs st i a s) =
     (if i < 0 \<or> int (length cs) \<le> i then progressInterval s
      else Some (progressStep (chunk_text (cs ! nat i)) st))"
  by (simp_all add: playChunk_def backend_defs Let_def)

lemma playChunk_in_range:
  assumes "0 \<le> i" "i < int (length cs)"
  shows "readerState (playChunk cs st i a s) = PLAYING"
    and "chunkProgress (playChunk cs st i a s) = 0"
    and "progressInterval (playChunk cs st i a s) = Some (progressStep (chunk_text (cs ! nat i)) st)"
    and "speechCalls (playChunk cs st i False s) = speechCalls s @ [Cancel, Cancel,
           Speak \<lparr>utt_text = chunk_text (cs ! nat i), utt_voiceURI = webSpeechVoiceURI st,
                  utt_rate = playbackRate st, utt_volume = volume st / 100,
                  utt_onend = OnEnd i cs st, utt_onerror = OnError\<rparr>]"
    and "speechCalls (playChunk cs st i True s) = speechCalls s @
          [Speak \<lparr>utt_text = chunk_text (cs ! nat i), utt_voiceURI = webSpeechVoiceURI st,
                  utt_rate = playbackRate st, utt_volume = volume st / 100,
                  utt_onend = OnEnd i cs st, utt_onerror = OnError\<rparr>]"
  using assms by (simp_all add: playChunk_def backend_defs Let_def)

lemma handleStop_frame:
  "currentChunkIndex (handleStop s) = currentChunkIndex s"
  "currentPage (handleStop s) = currentPage s"
  "saved (handleStop s) = saved s"
  "isSettingUpdate (handleStop s) = isSettingUpdate s"
  "chunks (handleStop s) = chunks s"
  "settings (handleStop s) = settings s"
  "content (handleStop s) = content s"
  "readerState (handleStop s) = IDLE"
  "chunkProgress (handleStop s) = 0"
  "progressInterval (handleStop s) = None"
  "queue (handleStop s) = []"
  "speechCalls (handleStop s) = speechCalls s @ [Cancel]"
  by (simp_all add: handleStop_def backend_defs)

text \<open>Effects when neither the settings nor the content changed.\<close>

lemma runEffects_same_settings:
  assumes "settings r = settings prev" "content r = content prev"
  shows "runEffects prev r =
     (if currentChunkIndex r \<noteq> currentChunkIndex prev
      then indexEffect r (pageEffect r r) else r)"
  using assms by (simp add: runEffects_def Let_def)

lemma indexEffect_frame:
  "currentChunkIndex (indexEffect r s) = currentChunkIndex s"
  "currentPage (indexEffect r s) = currentPage s"
  "chunks (indexEffect r s) = chunks s"
  "settings (indexEffect r s) = settings s"
  "content (indexEffect r s) = content s"
  "readerState (indexEffect r s) = readerState s"
  "chunkProgress (indexEffect r s) = chunkProgress s"
  "progressInterval (indexEffect r s) = progressInterval s"
  "queue (indexEffect r s) = queue s"
  "speechCalls (indexEffect r s) = speechCalls s"
  by (simp_all add: indexEffect_def Let_def)

lemma pageEffect_frame:
  "currentChunkIndex (pageEffect r s) = currentChunkIndex s"
  "currentPage (pageEffect r s) = currentChunkIndex r div ITEMS_PER_PAGE"
  "chunks (pageEffect r s) = chunks s"
  "settings (pageEffect r s) = settings s"
  "content (pageEffect r s) = content s"
  "readerState (pageEffect r s) = readerState s"
  "chunkProgress (pageEffect r s) = chunkProgress s"
  "progressInterval (pageEffect r s) = progressInterval s"
  "queue (pageEffect r s) = queue s"
  "speechCalls (pageEffect r s) = speechCalls s"
  "saved (pageEffect r s) = saved s"
  "isSettingUpdate (pageEffect r s) = isSettingUpdate s"
  by (simp_all add: pageEffect_def)

lemma commit_same_settings:
  assumes "settings r = settings prev" "content r = content prev"
  shows "commit prev r =
     (if currentChunkIndex r \<noteq> currentChunkIndex prev
      then indexEffect r (pageEffect r r) else r)"
proof -
  let ?s1 = "runEffects prev r"
  have s1: "?s1 = (if currentChunkIndex r \<noteq> currentChunkIndex prev
      then indexEffect r (pageEffect r r) else r)"
    using assms by (rule runEffects_same_settings)
  have "settings ?s1 = settings r" "content ?s1 = content r"
    "currentChunkIndex ?s1 = currentChunkIndex r"
    unfolding s1 by (simp_all add: indexEffect_frame pageEffect_frame)
  then have "runEffects r ?s1 = ?s1"
    by (simp add: runEffects_same_settings)
  then show ?thesis unfolding commit_def s1 .
qed

lemma handleNavigate_frame:
  "settings (handleNavigate d s) = settings s"
  "content (handleNavigate d s) = content s"
  "chunks (handleNavigate d s) = chunks s"
  by (simp_all add: handleNavigate_def Let_def playChunk_frame handleStop_frame)

section \<open>Claims about the playback controller\<close>

text \<open>
  Claim C5. With at least one chunk and the current index \<open>i\<close> in range, navigating by
  any offset \<open>d\<close> sets the index to \<open>max 0 (min (N - 1) (i + d))\<close> and the state to
  PLAYING: the handler stops (\<open>handleStop\<close>) and then plays the chunk at the new index,
  so the backend receives the cancellations followed by one \<open>speak\<close> of that chunk's
  text; the effects that follow keep index and state. With no chunk, the state IDLE
  and index 0, the commands play and jump leave the reader as it is, and navigate only
  stops: state IDLE, index 0, nothing queued; when nothing was queued and no timer ran,
  the reader after navigate differs from the one before only by the cancellation sent
  to the backend.
\<close>

theorem navigate_clamps:
  "(1 \<le> int (length (chunks s)) \<and> 0 \<le> currentChunkIndex s
      \<and> currentChunkIndex s \<le> int (length (chunks s)) - 1 \<longrightarrow>
     currentChunkIndex (handleNavigate d s)
       = max 0 (min (int (length (chunks s)) - 1) (currentChunkIndex s + d))
   \<and> readerState (handleNavigate d s) = PLAYING
   \<and> handleNavigate d s
       = playChunk (chunks s) (settings s)
           (max 0 (min (int (length (chunks s)) - 1) (currentChunkIndex s + d))) False
           ((handleStop s)\<lparr>currentChunkIndex :=
               max 0 (min (int (length (chunks s)) - 1) (currentChunkIndex s + d))\<rparr>)
   \<and> speechCalls (handleNavigate d s)
       = speechCalls s @ [Cancel, Cancel, Cancel,
           Speak \<lparr>utt_text = chunk_text (chunks s !
                    nat (max 0 (min (int (length (chunks s)) - 1) (currentChunkIndex s + d)))),
                  utt_voiceURI = webSpeechVoiceURI (settings s),
                  utt_rate = playbackRate (settings s),
                  utt_volume = volume (settings s) / 100,
                  utt_onend = OnEnd
                    (max 0 (min (int (length (chunks s)) - 1) (currentChunkIndex s + d)))
                    (chunks s) (settings s),
                  utt_onerror = OnError\<rparr>]
   \<and> map_option currentChunkIndex (dispatch (Navigate d) s)
       = Some (max 0 (min (int (length (chunks s)) - 1) (currentChunkIndex s + d)))
   \<and> map_option readerState (dispatch (Navigate d) s) = Some PLAYING)
  \<and> (chunks s = [] \<and> readerState s = IDLE \<and> currentChunkIndex s = 0 \<longrightarrow>
       handlePlayPause s = s
     \<and> handleJump target s = s
     \<and> handleNavigate d s = handleStop s
     \<and> readerState (handleNavigate d s) = IDLE
     \<and> currentChunkIndex (handleNavigate d s) = 0
     \<and> queue (handleNavigate d s) = []
     \<and> dispatch PlayPause s = Some s
     \<and> dispatch (Jump target) s = Some s
     \<and> dispatch (Navigate d) s = Some (handleStop s)
     \<and> (queue s = [] \<and> progressInterval s = None \<and> chunkProgress s = 0 \<longrightarrow>
          handleNavigate d s = s\<lparr>speechCalls := speechCalls s @ [Cancel]\<rparr>))"
proof (intro conjI impI)
  let ?n = "int (length (chunks s))"
  let ?next = "max 0 (min (?n - 1) (currentChunkIndex s + d))"
  let ?s2 = "(handleStop s)\<lparr>currentChunkIndex := ?next\<rparr>"
  assume a: "1 \<le> ?n \<and> 0 \<le> currentChunkIndex s \<and> currentChunkIndex s \<le> ?n - 1"
  then have lo: "0 \<le> ?next" and hi: "?next < ?n" by auto
  have eq: "handleNavigate d s = playChunk (chunks s) (settings s) ?next False ?s2"
    by (simp add: handleNavigate_def Let_def)
  show idx: "currentChunkIndex (handleNavigate d s) = ?next"
    unfolding eq by (simp add: playChunk_frame)
  show st: "readerState (handleNavigate d s) = PLAYING"
    unfolding eq by (rule playChunk_in_range(1)[OF lo hi])
  show "handleNavigate d s = playChunk (chunks s) (settings s) ?next False ?s2"
    by (rule eq)
  have "speechCalls (handleNavigate d s) = speechCalls ?s2 @ [Cancel, Cancel,
           Speak \<lparr>utt_text = chunk_text (chunks s ! nat ?next),
                  utt_voiceURI = webSpeechVoiceURI (settings s),
                  utt_rate = playbackRate (settings s),
                  utt_volume = volume (settings s) / 100,
                  utt_onend = OnEnd ?next (chunks s) (settings s),
                  utt_onerror = OnError\<rparr>]"
    unfolding eq by (rule playChunk_in_range(4)[OF lo hi])
  then show "speechCalls (handleNavigate d s)
       = speechCalls s @ [Cancel, Cancel, Cancel,
           Speak \<lparr>utt_text = chunk_text (chunks s ! nat ?next),
                  utt_voiceURI = webSpeechVoiceURI (settings s),
                  utt_rate = playbackRate (settings s),
                  utt_volume = volume (settings s) / 100,
                  utt_onend = OnEnd ?next (chunks s) (settings s),
                  utt_onerror = OnError\<rparr>]"
    by (simp add: handleStop_frame)
  have c: "commit s (handleNavigate d s) =
     (if currentChunkIndex (handleNavigate d s) \<noteq> currentChunkIndex s
      then indexEffect (handleNavigate d s) (pageEffect (handleNavigate d s) (handleNavigate d s))
      else handleNavigate d s)"
    by (rule commit_same_settings) (simp_all add: handleNavigate_frame)
  show "map_option currentChunkIndex (dispatch (Navigate d) s) = Some ?next"
    unfolding dispatch_def using idx by (simp add: c indexEffect_frame pageEffect_frame)
  show "map_option readerState (dispatch (Navigate d) s) = Some PLAYING"
    unfolding dispatch_def using st by (simp add: c indexEffect_frame pageEffect_frame)
next
  assume e: "chunks s = [] \<and> readerState s = IDLE \<and> currentChunkIndex s = 0"
  show pp: "handlePlayPause s = s"
    using e by (simp add: handlePlayPause_def playChunk_def)
  show j: "handleJump target s = s"
    using e by (auto simp add: handleJump_def split: option.splits)
  show n: "handleNavigate d s = handleStop s"
    using e by (simp add: handleNavigate_def Let_def playChunk_def handleStop_frame)
  show "readerState (handleNavigate d s) = IDLE"
    unfolding n by (simp add: handleStop_frame)
  show "currentChunkIndex (handleNavigate d s) = 0"
    unfolding n using e by (simp add: handleStop_frame)
  show "queue (handleNavigate d s) = []"
    unfolding n by (simp add: handleStop_frame)
  show "dispatch PlayPause s = Some s"
    by (simp add: dispatch_def pp commit_same_settings)
  show "dispatch (Jump target) s = Some s"
    by (simp add: dispatch_def j commit_same_settings)
  show "dispatch (Navigate d) s = Some (handleStop s)"
    by (simp add: dispatch_def n commit_same_settings handleStop_frame)
next
  assume e: "chunks s = [] \<and> readerState s = IDLE \<and> currentChunkIndex s = 0"
    and q: "queue s = [] \<and> progressInterval s = None \<and> chunkProgress s = 0"
  have "handleNavigate d s = handleStop s"
    using e by (simp add: handleNavigate_def Let_def playChunk_def handleStop_frame)
  also have "\<dots> = s\<lparr>speechCalls := speechCalls s @ [Cancel]\<rparr>"
    using e q by (simp add: handleStop_def stopWebSpeech_def clearProgressInterval_def)
  finally show "handleNavigate d s = s\<lparr>speechCalls := speechCalls s @ [Cancel]\<rparr>" .
qed


theorem navigate_clamps_witness:
  "1 \<le> int (length (chunks demoReader)) \<and> 0 \<le> currentChunkIndex demoReader
   \<and> currentChunkIndex demoReader \<le> int (length (chunks demoReader)) - 1
   \<and> currentChunkIndex (handleNavigate 10 demoReader) = 3
   \<and> readerState (handleNavigate 10 demoReader) = PLAYING
   \<and> chunks emptyReader = [] \<and> readerState emptyReader = IDLE
   \<and> currentChunkIndex emptyReader = 0
   \<and> dispatch (Navigate 1) emptyReader = Some (handleStop emptyReader)
   \<and> dispatch (Jump (Some 1)) emptyReader = Some emptyReader"
proof -
  have h1: "1 \<le> int (length (chunks demoReader)) \<and> 0 \<le> currentChunkIndex demoReader
      \<and> currentChunkIndex demoReader \<le> int (length (chunks demoReader)) - 1"
    by code_simp
  have h2: "chunks emptyReader = [] \<and> readerState emptyReader = IDLE
      \<and> currentChunkIndex emptyReader = 0"
    by code_simp
  have v: "max 0 (min (int (length (chunks demoReader)) - 1) (currentChunkIndex demoReader + 10)) = 3"
    by code_simp
  from navigate_clamps [where s = demoReader and d = 10] h1
  have "currentChunkIndex (handleNavigate 10 demoReader)
          = max 0 (min (int (length (chunks demoReader)) - 1) (currentChunkIndex demoReader + 10))
      \<and> readerState (handleNavigate 10 demoReader) = PLAYING"
    by blast
  moreover from navigate_clamps [where s = emptyReader and d = 1 and target = "Some 1"] h2
  have "dispatch (Navigate 1) emptyReader = Some (handleStop emptyReader)
      \<and> dispatch (Jump (Some 1)) emptyReader = Some emptyReader"
    by blast
  ultimately show ?thesis using h1 h2 v by simp
qed

text \<open>
  Claim C6 on the code. The reader of the four-chunk text plays chunk 0; the rate is
  edited and saved while PLAYING; then chunk 0 completes and playback advances to
  chunk 1. The index has changed from 0 to 1, and \<open>onSaveProgress\<close> has not been
  called for it: the list of saved pairs is the one before the completion. The flag
  \<open>isSettingUpdate\<close>, set by the settings effect, was still set when the index effect
  ran. Without the edit the same completion saves the pair with index 1.
\<close>

theorem save_skipped_after_settings_edit:
  "map_option readerState (runEvents [PlayPause] demoReader) = Some PLAYING
   \<and> map_option currentChunkIndex
        (runEvents [PlayPause, SaveSettings ((settings demoReader)\<lparr>playbackRate := 2\<rparr>)]
           demoReader) = Some 0
   \<and> map_option currentChunkIndex
        (runEvents [PlayPause, SaveSettings ((settings demoReader)\<lparr>playbackRate := 2\<rparr>),
                    UtteranceEnd] demoReader) = Some 1
   \<and> map_option saved
        (runEvents [PlayPause, SaveSettings ((settings demoReader)\<lparr>playbackRate := 2\<rparr>),
                    UtteranceEnd] demoReader)
       = map_option saved
           (runEvents [PlayPause, SaveSettings ((settings demoReader)\<lparr>playbackRate := 2\<rparr>)]
              demoReader)
   \<and> map_option saved (runEvents [PlayPause, UtteranceEnd] demoReader)
       = map_option (\<lambda>s. saved s @ [(1, settings s)]) (runEvents [PlayPause] demoReader)"
  by code_simp

text \<open>
  Claim C8. \<open>changeChunkSize(delta)\<close> computes the new size clamped to 1 .. 200. When
  it equals the old size the reader is unchanged; otherwise the settings take the new
  size, the index becomes \<open>floor(currentIndex * oldSize / newSize)\<close>, and nothing else
  changes.
\<close>

theorem changeChunkSize_clamps:
  "1 \<le> max 1 (min 200 (sentencesPerChunk (settings s) + delta))
   \<and> max 1 (min 200 (sentencesPerChunk (settings s) + delta)) \<le> 200
   \<and> (max 1 (min 200 (sentencesPerChunk (settings s) + delta)) = sentencesPerChunk (settings s)
        \<longrightarrow> changeChunkSize delta s = s)
   \<and> (max 1 (min 200 (sentencesPerChunk (settings s) + delta)) \<noteq> sentencesPerChunk (settings s)
        \<longrightarrow>
          changeChunkSize delta s =
            s\<lparr>settings := (settings s)
                   \<lparr>sentencesPerChunk := max 1 (min 200 (sentencesPerChunk (settings s) + delta))\<rparr>,
              currentChunkIndex :=
                \<lfloor>(of_int (currentChunkIndex s * sentencesPerChunk (settings s)) :: rat)
                  / of_int (max 1 (min 200 (sentencesPerChunk (settings s) + delta)))\<rfloor>\<rparr>
        \<and> sentencesPerChunk (settings (changeChunkSize delta s))
            = max 1 (min 200 (sentencesPerChunk (settings s) + delta))
        \<and> currentChunkIndex (changeChunkSize delta s)
            = (currentChunkIndex s * sentencesPerChunk (settings s))
                div max 1 (min 200 (sentencesPerChunk (settings s) + delta)))"
proof -
  have fl: "\<lfloor>(of_int x :: rat) / of_int y\<rfloor> = x div y" for x y :: int
    by (rule floor_divide_of_int_eq)
  show ?thesis
    unfolding fl by (simp add: changeChunkSize_def Let_def)
qed

theorem changeChunkSize_clamps_witness:
  "max 1 (min 200 (sentencesPerChunk (settings demoReader) + 1)) \<noteq> sentencesPerChunk (settings demoReader)
   \<and> sentencesPerChunk (settings (changeChunkSize 1 (demoReader\<lparr>currentChunkIndex := 3\<rparr>))) = 2
   \<and> currentChunkIndex (changeChunkSize 1 (demoReader\<lparr>currentChunkIndex := 3\<rparr>)) = 1
   \<and> max 1 (min 200 (sentencesPerChunk (settings demoReader) + (- 1))) = sentencesPerChunk (settings demoReader)
   \<and> changeChunkSize (- 1) demoReader = demoReader"
proof -
  have h1: "max 1 (min 200 (sentencesPerChunk (settings (demoReader\<lparr>currentChunkIndex := 3\<rparr>)) + 1))
      \<noteq> sentencesPerChunk (settings (demoReader\<lparr>currentChunkIndex := 3\<rparr>))"
    by code_simp
  have h2: "max 1 (min 200 (sentencesPerChunk (settings demoReader) + (- 1)))
      = sentencesPerChunk (settings demoReader)"
    by code_simp
  have v: "max 1 (min 200 (sentencesPerChunk (settings (demoReader\<lparr>currentChunkIndex := 3\<rparr>)) + 1)) = 2"
    "(currentChunkIndex (demoReader\<lparr>currentChunkIndex := 3\<rparr>)
        * sentencesPerChunk (settings (demoReader\<lparr>currentChunkIndex := 3\<rparr>))) div 2 = 1"
    by code_simp+
  from changeChunkSize_clamps [where s = "demoReader\<lparr>currentChunkIndex := 3\<rparr>" and delta = 1] h1
  have "sentencesPerChunk (settings (changeChunkSize 1 (demoReader\<lparr>currentChunkIndex := 3\<rparr>)))
          = max 1 (min 200 (sentencesPerChunk (settings (demoReader\<lparr>currentChunkIndex := 3\<rparr>)) + 1))
      \<and> currentChunkIndex (changeChunkSize 1 (demoReader\<lparr>currentChunkIndex := 3\<rparr>))
          = (currentChunkIndex (demoReader\<lparr>currentChunkIndex := 3\<rparr>)
               * sentencesPerChunk (settings (demoReader\<lparr>currentChunkIndex := 3\<rparr>)))
            div max 1 (min 200 (sentencesPerChunk (settings (demoReader\<lparr>currentChunkIndex := 3\<rparr>)) + 1))"
    by blast
  then have a: "sentencesPerChunk (settings (changeChunkSize 1 (demoReader\<lparr>currentChunkIndex := 3\<rparr>))) = 2
      \<and> currentChunkIndex (changeChunkSize 1 (demoReader\<lparr>currentChunkIndex := 3\<rparr>)) = 1"
    unfolding v by simp
  from changeChunkSize_clamps [where s = demoReader and delta = "- 1"] h2
  have b: "changeChunkSize (- 1) demoReader = demoReader"
    by blast
  from h1 have h1': "max 1 (min 200 (sentencesPerChunk (settings demoReader) + 1))
      \<noteq> sentencesPerChunk (settings demoReader)"
    by simp
  show ?thesis using a b h1' h2 by blast
qed

section \<open>Effects and events in general\<close>

lemma initChunksEffect_frame:
  "currentPage (initChunksEffect r s) = currentPage s"
  "settings (initChunksEffect r s) = settings s"
  "content (initChunksEffect r s) = content s"
  "chunkProgress (initChunksEffect r s) = chunkProgress s"
  by (simp_all add: initChunksEffect_def Let_def)

lemma settingsEffect_frame:
  "currentPage (settingsEffect r s) = currentPage s"
  "currentChunkIndex (settingsEffect r s) = currentChunkIndex s"
  "settings (settingsEffect r s) = settings s"
  "content (settingsEffect r s) = content s"
  by (simp_all add: settingsEffect_def Let_def playChunk_frame)

lemma settingsEffect_progress:
  "chunkProgress (settingsEffect r s) = chunkProgress s \<or> chunkProgress (settingsEffect r s) = 0"
  by (simp add: settingsEffect_def Let_def playChunk_state)

lemma runEffects_deps:
  "settings (runEffects prev r) = settings r"
  "content (runEffects prev r) = content r"
  by (simp_all add: runEffects_def Let_def indexEffect_frame settingsEffect_frame
      initChunksEffect_frame pageEffect_frame)

lemma runEffects_page:
  "currentPage (runEffects prev r) =
     (if currentChunkIndex r \<noteq> currentChunkIndex prev
      then currentChunkIndex r div ITEMS_PER_PAGE else currentPage r)"
  by (simp add: runEffects_def Let_def indexEffect_frame settingsEffect_frame
      initChunksEffect_frame pageEffect_frame)

lemma runEffects_progress:
  "chunkProgress (runEffects prev r) = chunkProgress r \<or> chunkProgress (runEffects prev r) = 0"
  using settingsEffect_progress[of r "initChunksEffect r (pageEffect r r)"]
    settingsEffect_progress[of r "initChunksEffect r r"]
    settingsEffect_progress[of r "pageEffect r r"]
    settingsEffect_progress[of r r]
  by (auto simp add: runEffects_def Let_def indexEffect_frame initChunksEffect_frame
      pageEffect_frame)

lemma commit_second_pass:
  "commit prev r =
     (if currentChunkIndex (runEffects prev r) \<noteq> currentChunkIndex r
      then indexEffect (runEffects prev r) (pageEffect (runEffects prev r) (runEffects prev r))
      else runEffects prev r)"
  unfolding commit_def by (rule runEffects_same_settings) (simp_all add: runEffects_deps)

lemma commit_index:
  "currentChunkIndex (commit prev r) = currentChunkIndex (runEffects prev r)"
  by (simp add: commit_second_pass indexEffect_frame pageEffect_frame)

text \<open>A third pass would run no effect: the state after \<open>commit\<close> is stable.\<close>

lemma commit_stable:
  "runEffects (runEffects prev r) (commit prev r) = commit prev r"
proof -
  have "settings (commit prev r) = settings (runEffects prev r)"
    "content (commit prev r) = content (runEffects prev r)"
    by (simp_all add: commit_second_pass indexEffect_frame pageEffect_frame)
  then show ?thesis
    by (simp add: runEffects_same_settings commit_index)
qed

lemma commit_page:
  "currentPage (commit prev r) =
     (if currentChunkIndex (commit prev r) \<noteq> currentChunkIndex r
      then currentChunkIndex (commit prev r) div ITEMS_PER_PAGE
      else if currentChunkIndex r \<noteq> currentChunkIndex prev
      then currentChunkIndex r div ITEMS_PER_PAGE else currentPage r)"
  by (simp add: commit_second_pass indexEffect_frame pageEffect_frame runEffects_page)

lemma commit_progress:
  "chunkProgress (commit prev r) = chunkProgress r \<or> chunkProgress (commit prev r) = 0"
  using runEffects_progress[of prev r]
  by (auto simp add: commit_second_pass indexEffect_frame pageEffect_frame)

lemma onEnd_frame:
  "settings (onEnd cb s) = settings s"
  "content (onEnd cb s) = content s"
  "currentPage (onEnd cb s) = currentPage s"
  by (cases cb; simp add: onEnd_def Let_def completeChunk_def clearProgressInterval_def
      playChunk_frame)+

lemma playback_handler_frame:
  assumes "isPlaybackEvent ev" "handleEvent ev s = Some r"
  shows "settings r = settings s \<and> content r = content s \<and> currentPage r = currentPage s"
proof (cases ev)
  case PlayPause
  with assms show ?thesis
    by (auto simp add: handlePlayPause_def pauseWebSpeech_def resumeWebSpeech_def playChunk_frame)
next
  case Stop
  with assms show ?thesis by (auto simp add: handleStop_frame)
next
  case (Navigate d)
  with assms show ?thesis
    by (auto simp add: handleNavigate_def Let_def playChunk_frame handleStop_frame)
next
  case (Jump t)
  with assms show ?thesis
    by (auto simp add: handleJump_def Let_def playChunk_frame handleStop_frame split: option.splits)
next
  case (ChunkClick i)
  with assms show ?thesis
    by (auto simp add: handleChunkClick_def Let_def playChunk_frame handleStop_frame)
next
  case Tick
  with assms show ?thesis by (auto simp add: tick_def split: option.splits)
next
  case UtteranceEnd
  with assms show ?thesis
    by (auto simp add: utteranceEnd_def onEnd_frame split: list.splits)
next
  case (UtteranceError err)
  with assms show ?thesis
    by (auto simp add: utteranceError_def onError_def Let_def clearProgressInterval_def
        split: list.splits)
qed (use assms in simp_all)

subsection \<open>The progress simulation\<close>














section \<open>Claims about pagination and about the progress callback\<close>

lemma pagedReader_chunks:
  "splitTextIntoChunks (content pagedReader) (sentencesPerChunk (settings pagedReader))
     = chunks pagedReader"
  by code_simp

text \<open>
  Claim C9, as stated, fails. In paginated mode, while chunk 49 of 60 plays and page 0
  is displayed, the completion of the chunk advances the index to 50 and the displayed
  page changes to 1, with no page command.
\<close>

theorem page_follows_index_counterexample:
  "viewMode (settings pagedReader) = Paginated
   \<and> readerState pagedReader = PLAYING
   \<and> currentChunkIndex pagedReader = 49
   \<and> currentPage pagedReader = 0
   \<and> map_option currentChunkIndex (dispatch UtteranceEnd pagedReader) = Some 50
   \<and> map_option readerState (dispatch UtteranceEnd pagedReader) = Some PLAYING
   \<and> map_option currentPage (dispatch UtteranceEnd pagedReader) = Some 1"
  by code_simp

lemma handler_page:
  assumes "handleEvent ev s = Some r" "\<forall>p. ev \<noteq> PageChange p"
  shows "currentPage r = currentPage s"
proof (cases "isPlaybackEvent ev")
  case True
  from playback_handler_frame[OF True assms(1)] show ?thesis by simp
next
  case False
  with assms show ?thesis
    by (cases ev) (auto simp add: changeChunkSize_def handleSaveSettings_def Let_def
        split: if_splits)
qed

lemma remapReader_chunks:
  "splitTextIntoChunks (content remapReader) (sentencesPerChunk (settings remapReader))
     = chunks remapReader"
  by code_simp

text \<open>
  Claim C9, amended. The page size is 50. An event is handled in a render, which may
  change the current chunk index, and followed by effects, where re-segmentation may
  clamp it. If the index changes at either step, the displayed page after the event is
  \<open>floor(index / 50)\<close>: so whenever the index after the event differs from the one
  before (auto-advance included), and also when a saved change of the group size
  re-maps the index and the clamp returns it to its old value. If the index changes at
  neither step, the page is the one the handler left, which is the page before the
  event for every event but the page command; the page command keeps the index and
  sets the requested page when it lies in \<open>0 .. totalPages - 1\<close>, and changes nothing
  otherwise. A playback event involves no re-segmentation, so after it the page is
  unchanged when the index is.
\<close>

theorem page_follows_index:
  "handleEvent ev s = Some r \<Longrightarrow> dispatch ev s = Some s' \<Longrightarrow>
     (currentChunkIndex r \<noteq> currentChunkIndex s \<or> currentChunkIndex s' \<noteq> currentChunkIndex r
        \<longrightarrow> currentPage s' = currentChunkIndex s' div 50)
   \<and> (currentChunkIndex s' \<noteq> currentChunkIndex s \<longrightarrow>
        currentPage s' = currentChunkIndex s' div 50)
   \<and> (currentChunkIndex r = currentChunkIndex s \<and> currentChunkIndex s' = currentChunkIndex r
        \<longrightarrow> currentPage s' = currentPage r)
   \<and> ((\<forall>p. ev \<noteq> PageChange p) \<longrightarrow> currentPage r = currentPage s)
   \<and> (ev = PageChange newPage \<longrightarrow>
        currentChunkIndex s' = currentChunkIndex s
      \<and> currentPage s' =
          (if 0 \<le> newPage \<and> newPage < totalPages s then newPage else currentPage s))
   \<and> (isPlaybackEvent ev \<longrightarrow> currentChunkIndex s' = currentChunkIndex r)
   \<and> (isPlaybackEvent ev \<and> currentChunkIndex s' = currentChunkIndex s \<longrightarrow>
        currentPage s' = currentPage s)"
proof -
  assume r: "handleEvent ev s = Some r" and d: "dispatch ev s = Some s'"
  then have s': "s' = commit s r"
    by (simp add: dispatch_def)
  have pg: "currentPage s' =
     (if currentChunkIndex s' \<noteq> currentChunkIndex r
      then currentChunkIndex s' div 50
      else if currentChunkIndex r \<noteq> currentChunkIndex s
      then currentChunkIndex r div 50 else currentPage r)"
    unfolding s' using commit_page[of s r] by (simp add: ITEMS_PER_PAGE_def)
  have play: "currentChunkIndex s' = currentChunkIndex r \<and> currentPage r = currentPage s"
    if p: "isPlaybackEvent ev"
  proof -
    from playback_handler_frame[OF p r]
    have fr: "settings r = settings s" "content r = content s" "currentPage r = currentPage s"
      by simp_all
    have "commit s r = (if currentChunkIndex r \<noteq> currentChunkIndex s
        then indexEffect r (pageEffect r r) else r)"
      by (rule commit_same_settings) (simp_all add: fr)
    then have "currentChunkIndex (commit s r) = currentChunkIndex r"
      by (simp add: indexEffect_frame pageEffect_frame)
    then show ?thesis using fr by (simp add: s')
  qed
  show ?thesis
  proof (intro conjI impI)
    assume "currentChunkIndex r \<noteq> currentChunkIndex s \<or> currentChunkIndex s' \<noteq> currentChunkIndex r"
    then show "currentPage s' = currentChunkIndex s' div 50"
      using pg by auto
  next
    assume "currentChunkIndex s' \<noteq> currentChunkIndex s"
    then show "currentPage s' = currentChunkIndex s' div 50"
      using pg by auto
  next
    assume "currentChunkIndex r = currentChunkIndex s \<and> currentChunkIndex s' = currentChunkIndex r"
    then show "currentPage s' = currentPage r"
      using pg by simp
  next
    assume "\<forall>p. ev \<noteq> PageChange p"
    with r show "currentPage r = currentPage s"
      by (rule handler_page)
  next
    assume e: "ev = PageChange newPage"
    with r have r': "r = handlePageChange newPage s" by simp
    have "commit s (handlePageChange newPage s) = handlePageChange newPage s"
      by (simp add: commit_same_settings handlePageChange_def)
    then have eq: "s' = handlePageChange newPage s"
      using s' r' by simp
    show "currentChunkIndex s' = currentChunkIndex s"
      unfolding eq by (simp add: handlePageChange_def)
    show "currentPage s' =
          (if 0 \<le> newPage \<and> newPage < totalPages s then newPage else currentPage s)"
      unfolding eq by (simp add: handlePageChange_def)
  next
    assume "isPlaybackEvent ev"
    then show "currentChunkIndex s' = currentChunkIndex r"
      using play by simp
  next
    assume p: "isPlaybackEvent ev \<and> currentChunkIndex s' = currentChunkIndex s"
    then have "currentChunkIndex s' = currentChunkIndex r" "currentPage r = currentPage s"
      using play by simp_all
    with p pg show "currentPage s' = currentPage s"
      by simp
  qed
qed


theorem page_follows_index_witness:
  "handleEvent UtteranceEnd pagedReader = Some (utteranceEnd pagedReader)
   \<and> currentChunkIndex (utteranceEnd pagedReader) \<noteq> currentChunkIndex pagedReader
   \<and> currentPage (the (dispatch UtteranceEnd pagedReader)) = 1
   \<and> isPlaybackEvent Tick
   \<and> currentChunkIndex (the (dispatch Tick pagedReader)) = currentChunkIndex pagedReader
   \<and> currentPage (the (dispatch Tick pagedReader)) = currentPage pagedReader
   \<and> currentPage (the (dispatch (PageChange 1) pagedReader)) = 1
   \<and> currentChunkIndex remapReader = 59
   \<and> currentPage remapReader = 0
   \<and> currentChunkIndex
        (the (handleEvent (SaveSettings ((settings remapReader)\<lparr>sentencesPerChunk := - 1\<rparr>))
                remapReader)) \<noteq> currentChunkIndex remapReader
   \<and> currentChunkIndex
        (the (dispatch (SaveSettings ((settings remapReader)\<lparr>sentencesPerChunk := - 1\<rparr>))
                remapReader)) = 59
   \<and> currentPage
        (the (dispatch (SaveSettings ((settings remapReader)\<lparr>sentencesPerChunk := - 1\<rparr>))
                remapReader)) = 1"
proof -
  let ?save = "SaveSettings ((settings remapReader)\<lparr>sentencesPerChunk := - 1\<rparr>)"
  have e1: "dispatch UtteranceEnd pagedReader = Some (the (dispatch UtteranceEnd pagedReader))"
    and e2: "dispatch Tick pagedReader = Some (the (dispatch Tick pagedReader))"
    and e3: "dispatch (PageChange 1) pagedReader = Some (the (dispatch (PageChange 1) pagedReader))"
    by (simp_all add: dispatch_def)
  have r1: "handleEvent UtteranceEnd pagedReader = Some (utteranceEnd pagedReader)"
    and r2: "handleEvent Tick pagedReader = Some (tick pagedReader)"
    and r3: "handleEvent (PageChange 1) pagedReader = Some (handlePageChange 1 pagedReader)"
    by simp_all
  have h1: "currentChunkIndex (utteranceEnd pagedReader) \<noteq> currentChunkIndex pagedReader"
    by code_simp
  have v1: "currentChunkIndex (the (dispatch UtteranceEnd pagedReader)) div 50 = 1"
    by code_simp
  have h2: "isPlaybackEvent Tick
      \<and> currentChunkIndex (the (dispatch Tick pagedReader)) = currentChunkIndex pagedReader"
    by code_simp
  have h3: "0 \<le> (1::int) \<and> 1 < totalPages pagedReader"
    by code_simp
  have ne: "handleEvent ?save remapReader \<noteq> None"
    by code_simp
  then have r4: "handleEvent ?save remapReader = Some (the (handleEvent ?save remapReader))"
    by auto
  from ne have e4: "dispatch ?save remapReader = Some (the (dispatch ?save remapReader))"
    by (auto simp add: dispatch_def)
  have h4: "currentChunkIndex (the (handleEvent ?save remapReader)) \<noteq> currentChunkIndex remapReader"
    by code_simp
  have v4: "currentChunkIndex remapReader = 59 \<and> currentPage remapReader = 0
      \<and> currentChunkIndex (the (dispatch ?save remapReader)) = 59"
    by code_simp
  from page_follows_index [OF r1 e1] h1 v1
  have a: "currentPage (the (dispatch UtteranceEnd pagedReader)) = 1" by simp
  from page_follows_index [OF r2 e2] h2
  have b: "currentPage (the (dispatch Tick pagedReader)) = currentPage pagedReader" by blast
  from page_follows_index [OF r3 e3, where newPage = 1] h3
  have c: "currentPage (the (dispatch (PageChange 1) pagedReader)) = 1" by simp
  from page_follows_index [OF r4 e4] h4
  have "currentPage (the (dispatch ?save remapReader))
      = currentChunkIndex (the (dispatch ?save remapReader)) div 50"
    by blast
  with v4 have d: "currentPage (the (dispatch ?save remapReader)) = 1" by simp
  show ?thesis using a b c d r1 h1 h2 h4 v4 by blast
qed

lemma onEnd_progress:
  "chunkProgress (onEnd cb s) = 0 \<or> chunkProgress (onEnd cb s) = 100"
  by (cases cb) (simp add: onEnd_def Let_def completeChunk_def clearProgressInterval_def
      playChunk_state)

lemma stop_then_play_progress:
  "chunkProgress (playChunk cs st i a ((handleStop s)\<lparr>currentChunkIndex := j\<rparr>)) = 0"
  by (simp add: playChunk_state handleStop_frame)

lemma handler_progress:
  assumes "handleEvent ev s = Some r"
  shows "chunkProgress r = chunkProgress s \<or> chunkProgress r = 0
     \<or> (ev = UtteranceEnd \<and> chunkProgress r = 100)
     \<or> (ev = Tick \<and> (\<exists>step. progressInterval s = Some step
            \<and> chunkProgress r = min 95 (chunkProgress s + step)))"
proof (cases ev)
  case PlayPause
  with assms show ?thesis
    by (auto simp add: handlePlayPause_def pauseWebSpeech_def resumeWebSpeech_def
        playChunk_state)
next
  case Stop
  with assms show ?thesis by (auto simp add: handleStop_frame)
next
  case (Navigate d)
  with assms have "chunkProgress r = 0"
    by (auto simp add: handleNavigate_def Let_def stop_then_play_progress)
  then show ?thesis by simp
next
  case (Jump t)
  with assms have "chunkProgress r = chunkProgress s \<or> chunkProgress r = 0"
    by (auto simp add: handleJump_def Let_def stop_then_play_progress split: option.splits)
  then show ?thesis by blast
next
  case (ChunkClick i)
  with assms have "chunkProgress r = 0"
    by (auto simp add: handleChunkClick_def Let_def stop_then_play_progress)
  then show ?thesis by simp
next
  case (ChangeChunkSize delta)
  with assms show ?thesis by (auto simp add: changeChunkSize_def Let_def)
next
  case (SaveSettings tempSettings)
  with assms show ?thesis
    by (auto simp add: handleSaveSettings_def Let_def split: if_splits)
next
  case (PageChange newPage)
  with assms show ?thesis by (auto simp add: handlePageChange_def)
next
  case Tick
  with assms show ?thesis by (auto simp add: tick_def split: option.splits)
next
  case UtteranceEnd
  with assms have r: "r = utteranceEnd s" by simp
  show ?thesis
  proof (cases "queue s")
    case Nil
    then show ?thesis by (simp add: r utteranceEnd_def)
  next
    case (Cons u rest)
    then have "r = onEnd (utt_onend u) (s\<lparr>queue := rest\<rparr>)"
      by (simp add: r utteranceEnd_def)
    with onEnd_progress[of "utt_onend u" "s\<lparr>queue := rest\<rparr>"] UtteranceEnd
    show ?thesis by auto
  qed
next
  case (UtteranceError err)
  with assms show ?thesis
    by (auto simp add: utteranceError_def onError_def Let_def clearProgressInterval_def
        split: list.splits)
qed

text \<open>
  Claim C10. The result of \<open>speakWebSpeech\<close> does not depend on arguments beyond its
  seven parameters, so the real-progress closure that \<open>playChunk\<close> passes in eighth
  position is dropped and no utterance holds it. Accordingly an event changes the
  displayed progress only to 0 (a chunk starts, or playback stops), to 100 (the
  completion callback) or to the value of the simulation timer's tick.
\<close>

theorem progress_callback_never_invoked:
  "speakWebSpeech t v rate vol e er shouldCancel extra s
     = speakWebSpeech t v rate vol e er shouldCancel [] s
   \<and> (dispatch ev s = Some s' \<longrightarrow>
        chunkProgress s' = chunkProgress s \<or> chunkProgress s' = 0
      \<or> (ev = UtteranceEnd \<and> chunkProgress s' = 100)
      \<or> (ev = Tick \<and> (\<exists>step. progressInterval s = Some step
             \<and> chunkProgress s' = min 95 (chunkProgress s + step))))"
proof (intro conjI impI)
  show "speakWebSpeech t v rate vol e er shouldCancel extra s
     = speakWebSpeech t v rate vol e er shouldCancel [] s"
    by (simp add: speakWebSpeech_def)
next
  assume "dispatch ev s = Some s'"
  then obtain r where r: "handleEvent ev s = Some r" and s': "s' = commit s r"
    by (auto simp add: dispatch_def)
  from commit_progress[of s r] handler_progress[OF r]
  show "chunkProgress s' = chunkProgress s \<or> chunkProgress s' = 0
      \<or> (ev = UtteranceEnd \<and> chunkProgress s' = 100)
      \<or> (ev = Tick \<and> (\<exists>step. progressInterval s = Some step
             \<and> chunkProgress s' = min 95 (chunkProgress s + step)))"
    unfolding s' by auto
qed

theorem progress_callback_never_invoked_witness:
  "dispatch Tick (handlePlayPause demoReader) \<noteq> None
   \<and> chunkProgress (the (dispatch Tick (handlePlayPause demoReader))) \<noteq> 0
   \<and> chunkProgress (the (dispatch Tick (handlePlayPause demoReader)))
       \<noteq> chunkProgress (handlePlayPause demoReader)
   \<and> (\<exists>step. progressInterval (handlePlayPause demoReader) = Some step
         \<and> chunkProgress (the (dispatch Tick (handlePlayPause demoReader)))
             = min 95 (chunkProgress (handlePlayPause demoReader) + step))
   \<and> playChunk (chunks demoReader) (settings demoReader) 0 False demoReader
       = speakWebSpeech (js ''Hi.'') [] 1 100
           (OnEnd 0 (chunks demoReader) (settings demoReader)) OnError True []
           (demoReader\<lparr>speechCalls := [Cancel], readerState := PLAYING,
              progressInterval := Some (1000 / 21)\<rparr>)"
proof -
  let ?s = "handlePlayPause demoReader"
  have e: "dispatch Tick ?s = Some (the (dispatch Tick ?s))"
    by (simp add: dispatch_def)
  have ne: "dispatch Tick ?s \<noteq> None"
    by (simp add: dispatch_def)
  have h: "chunkProgress (the (dispatch Tick ?s)) \<noteq> 0
      \<and> chunkProgress (the (dispatch Tick ?s)) \<noteq> chunkProgress ?s"
    by code_simp
  have p: "playChunk (chunks demoReader) (settings demoReader) 0 False demoReader
       = speakWebSpeech (js ''Hi.'') [] 1 100
           (OnEnd 0 (chunks demoReader) (settings demoReader)) OnError True [OnProgress]
           (demoReader\<lparr>speechCalls := [Cancel], readerState := PLAYING,
              progressInterval := Some (1000 / 21)\<rparr>)"
    by code_simp
  note t = progress_callback_never_invoked [where ev = Tick and s = ?s
      and s' = "the (dispatch Tick ?s)"]
  from t e h
  have "\<exists>step. progressInterval ?s = Some step
         \<and> chunkProgress (the (dispatch Tick ?s)) = min 95 (chunkProgress ?s + step)"
    by blast
  moreover from progress_callback_never_invoked [where extra = "[OnProgress]"] p
  have "playChunk (chunks demoReader) (settings demoReader) 0 False demoReader
       = speakWebSpeech (js ''Hi.'') [] 1 100
           (OnEnd 0 (chunks demoReader) (settings demoReader)) OnError True []
           (demoReader\<lparr>speechCalls := [Cancel], readerState := PLAYING,
              progressInterval := Some (1000 / 21)\<rparr>)"
    by simp
  ultimately show ?thesis using ne h by blast
qed

end
